theory Spec2Isabelle
  imports Complex_Main "HOL-Library.Log_Nat"
begin

section \<open>The latency benchmark harness of the Stable Diffusion / OpenVINO notebook\<close>

text \<open>
  The notebook defines one function:
  \<^verbatim>\<open>
  def elapsed_time(pipeline, prompt, nb_pass=4, num_inference_steps=20):
      # warmup
      images = pipeline(prompt, num_inference_steps=10).images
      start = time.time()
      for _ in range(nb_pass):
          _ = pipeline(prompt, num_inference_steps=num_inference_steps, output_type="np")
      end = time.time()
      return (end - start) / nb_pass
  \<close>
  Its effects are the invocations of the pipeline and the two readings of the wall clock.
  Both are made explicit: the function takes a world (the pipeline's own state, the wall
  clock, and the trace of the effects performed so far) and returns the outcome together
  with the world it leaves behind, also when an exception ends the run.

  The wall clock of the world is the true time, a real number. Python's floats are doubles:
  \<open>time.time()\<close> returns the double nearest to the true time, and the subtraction and the
  division of the last line each round their result to a double. The clock moves only
  while the pipeline runs: the statements of the harness itself take no time. The defaults
  \<open>nb_pass = 4\<close> and \<open>num_inference_steps = 20\<close> are what the notebook's calls use; here
  both are always passed.
\<close>

subsection \<open>Data\<close>

text \<open>The arguments of one invocation: the positional prompt and the two keyword arguments,
  \<open>output_type\<close> being \<open>None\<close> when the call omits it.\<close>

record call_args =
  prompt :: string
  num_inference_steps :: int
  output_type :: "string option"

text \<open>A Python object as far as the harness looks at it: its attribute table.\<close>

type_synonym 'v pyobject = "string \<Rightarrow> 'v option"

text \<open>What a run can raise: whatever the pipeline raised (carried as it is), the
  \<open>AttributeError\<close> of a failed attribute access, and from the final division the
  \<open>ZeroDivisionError\<close> of a zero divisor or the \<open>OverflowError\<close> of an int too large to
  convert to a float.\<close>

datatype 'e py_error = Raised 'e | AttributeError string | ZeroDivisionError | OverflowError

datatype event = Invoke call_args | ReadClock real

text \<open>The pipeline capability is opaque: from the arguments and its own state it either
  raises or returns an object, leaves a new state of its own, and lets the wall clock move
  by some amount. \<open>time.time()\<close> is the system's wall clock, which can be set back, so the
  amount is any real number.\<close>

type_synonym ('p, 'e, 'v) pipeline = "call_args \<Rightarrow> 'p \<Rightarrow> ('e + 'v pyobject) \<times> 'p \<times> real"

record 'p world =
  pstate :: 'p
  clock :: real
  trace :: "event list"

subsection \<open>Python floats\<close>

text \<open>
  A finite double is the real number it denotes. \<open>to_double\<close> is the rounding every float
  operation of Python ends with: to the nearest double, ties to the even significand
  (IEEE 754 binary64: 53 significant bits, subnormal numbers below \<open>2 ^ (- 1022)\<close>).
  Infinities, NaN and the sign of zero are not modelled: readings of \<open>time.time()\<close> and
  their differences are far from the overflow threshold \<open>2 ^ 1024\<close>.
\<close>

text \<open>The binary exponent of a non-zero number: \<open>2 ^ expo x \<le> \<bar>x\<bar> < 2 ^ (expo x + 1)\<close>.\<close>

definition expo :: "real \<Rightarrow> int" where
  "expo x = (if 1 \<le> \<bar>x\<bar> then bitlen \<lfloor>\<bar>x\<bar>\<rfloor> - 1 else - bitlen (\<lceil>1 / \<bar>x\<bar>\<rceil> - 1))"

definition pow2 :: "int \<Rightarrow> real" where
  "pow2 k = (if 0 \<le> k then 2 ^ nat k else 1 / 2 ^ nat (- k))"

text \<open>The nearest integer, the even one of the two when they are equally near.\<close>

definition round_even :: "real \<Rightarrow> int" where
  "round_even y =
     (let f = \<lfloor>y\<rfloor>; r = y - of_int f
      in if r < 1 / 2 then f else if 1 / 2 < r then f + 1 else if even f then f else f + 1)"

text \<open>The spacing of the doubles around \<open>x\<close> is \<open>2 ^ (expo x - 52)\<close>, and \<open>2 ^ (- 1074)\<close>
  in the subnormal range.\<close>

definition to_double :: "real \<Rightarrow> real" where
  "to_double x =
     (if x = 0 then 0
      else let k = max (expo x) (- 1022) - 52
           in of_int (round_even (x / pow2 k)) * pow2 k)"

definition is_double :: "real \<Rightarrow> bool" where
  "is_double x = (to_double x = x \<and> \<bar>x\<bar> < 2 ^ 1024)"

text \<open>Python's \<open>-\<close> of two floats.\<close>

definition float_sub :: "real \<Rightarrow> real \<Rightarrow> real" where
  "float_sub x y = to_double (x - y)"

subsection \<open>The primitive effects\<close>

definition call_pipeline ::
  "('p, 'e, 'v) pipeline \<Rightarrow> call_args \<Rightarrow> 'p world \<Rightarrow> ('e py_error + 'v pyobject) \<times> 'p world" where
  "call_pipeline pipeline a w =
     (case pipeline a (pstate w) of
        (r, s', d) \<Rightarrow>
          ((case r of Inl e \<Rightarrow> Inl (Raised e) | Inr out \<Rightarrow> Inr out),
           w\<lparr>pstate := s', clock := clock w + d, trace := trace w @ [Invoke a]\<rparr>))"

text \<open>\<open>time.time()\<close>: the double nearest to the time on the clock.\<close>

definition time_time :: "'p world \<Rightarrow> real \<times> 'p world" where
  "time_time w =
     (to_double (clock w), w\<lparr>trace := trace w @ [ReadClock (to_double (clock w))]\<rparr>)"

definition getattr :: "'v pyobject \<Rightarrow> string \<Rightarrow> 'e py_error + 'v" where
  "getattr obj name = (case obj name of None \<Rightarrow> Inl (AttributeError name) | Some v \<Rightarrow> Inr v)"

text \<open>Python's \<open>/\<close> of a float by an int: the int is converted to a float, which raises
  \<open>OverflowError\<close> when it rounds to \<open>2 ^ 1024\<close> or beyond; a zero divisor raises
  \<open>ZeroDivisionError\<close>; otherwise the quotient is rounded.\<close>

definition truediv :: "real \<Rightarrow> int \<Rightarrow> 'e py_error + real" where
  "truediv x n =
     (if n = 0 then Inl ZeroDivisionError
      else if 2 ^ 1024 \<le> \<bar>to_double (real_of_int n)\<bar> then Inl OverflowError
      else Inr (to_double (x / to_double (real_of_int n))))"

subsection \<open>The harness\<close>

definition warmup_args :: "string \<Rightarrow> call_args" where
  "warmup_args p = \<lparr>prompt = p, num_inference_steps = 10, output_type = None\<rparr>"

definition timed_args :: "string \<Rightarrow> int \<Rightarrow> call_args" where
  "timed_args p steps = \<lparr>prompt = p, num_inference_steps = steps, output_type = Some ''np''\<rparr>"

text \<open>The \<open>for _ in range(nb_pass)\<close> loop, on the number of iterations left. An exception
  of the pipeline leaves the loop at once.\<close>

fun timed_loop ::
  "('p, 'e, 'v) pipeline \<Rightarrow> call_args \<Rightarrow> nat \<Rightarrow> 'p world \<Rightarrow> ('e py_error + unit) \<times> 'p world" where
  "timed_loop pipeline a 0 w = (Inr (), w)"
| "timed_loop pipeline a (Suc n) w =
     (case call_pipeline pipeline a w of
        (Inl e, w') \<Rightarrow> (Inl e, w')
      | (Inr _, w') \<Rightarrow> timed_loop pipeline a n w')"

text \<open>\<open>range(nb_pass)\<close> is empty for \<open>nb_pass \<le> 0\<close>, hence \<open>nat nb_pass\<close> iterations.\<close>

definition elapsed_time ::
  "('p, 'e, 'v) pipeline \<Rightarrow> string \<Rightarrow> int \<Rightarrow> int \<Rightarrow> 'p world \<Rightarrow> ('e py_error + real) \<times> 'p world" where
  "elapsed_time pipeline p nb_pass steps w =
     (case call_pipeline pipeline (warmup_args p) w of
        (Inl e, w1) \<Rightarrow> (Inl e, w1)
      | (Inr out, w1) \<Rightarrow>
          (case getattr out ''images'' of
             Inl e \<Rightarrow> (Inl e, w1)
           | Inr images \<Rightarrow>
               (case time_time w1 of
                  (start, w2) \<Rightarrow>
                    (case timed_loop pipeline (timed_args p steps) (nat nb_pass) w2 of
                       (Inl e, w3) \<Rightarrow> (Inl e, w3)
                     | (Inr _, w3) \<Rightarrow>
                         (case time_time w3 of
                            (finish, w4) \<Rightarrow> (truediv (float_sub finish start) nb_pass, w4))))))"

subsection \<open>Observations on a run\<close>

text \<open>The invocations among the events of a trace, in order.\<close>

fun invocations :: "event list \<Rightarrow> call_args list" where
  "invocations [] = []"
| "invocations (Invoke a # es) = a # invocations es"
| "invocations (ReadClock t # es) = invocations es"

text \<open>The events a run adds to the trace it started from.\<close>

definition events_of ::
  "('p, 'e, 'v) pipeline \<Rightarrow> string \<Rightarrow> int \<Rightarrow> int \<Rightarrow> 'p world \<Rightarrow> event list" where
  "events_of pipeline p nb_pass steps w =
     drop (length (trace w)) (trace (snd (elapsed_time pipeline p nb_pass steps w)))"

text \<open>The state the pipeline reaches from its own invocations alone.\<close>

fun replay :: "('p, 'e, 'v) pipeline \<Rightarrow> call_args list \<Rightarrow> 'p \<Rightarrow> 'p" where
  "replay pipeline [] s = s"
| "replay pipeline (a # as) s = replay pipeline as (fst (snd (pipeline a s)))"





subsection \<open>Pipelines and worlds for concrete runs\<close>

definition world0 :: "nat world" where
  "world0 = \<lparr>pstate = 0, clock = 5000, trace = []\<rparr>"

definition result_obj :: "nat pyobject" where
  "result_obj = (\<lambda>name. if name = ''images'' then Some 1 else None)"

definition bare_obj :: "nat pyobject" where
  "bare_obj = (\<lambda>name. None)"

text \<open>Two seconds a call, counting its calls in its state.\<close>

definition steady :: "(nat, string, nat) pipeline" where
  "steady a s = (Inr result_obj, Suc s, 2)"

text \<open>As \<open>steady\<close>, but the returned object has no attribute at all.\<close>

definition bare :: "(nat, string, nat) pipeline" where
  "bare a s = (Inr bare_obj, Suc s, 2)"

text \<open>Raises on every call.\<close>

definition broken :: "(nat, string, nat) pipeline" where
  "broken a s = (Inl ''out of memory'', Suc s, 1)"

text \<open>Raises on its third call (the second timed one).\<close>

definition flaky :: "(nat, string, nat) pipeline" where
  "flaky a s = (if s = 2 then Inl ''out of memory'' else Inr result_obj, Suc s, 2)"

text \<open>The system clock is set back by an hour while a timed call runs.\<close>

definition clock_set_back :: "(nat, string, nat) pipeline" where
  "clock_set_back a s = (Inr result_obj, Suc s, if output_type a = None then 2 else 2 - 3600)"


text \<open>A world whose clock starts at zero, and one whose clock is a time since the epoch.\<close>

definition world_zero :: "nat world" where
  "world_zero = \<lparr>pstate = 0, clock = 0, trace = []\<rparr>"

definition world_epoch :: "nat world" where
  "world_epoch = \<lparr>pstate = 0, clock = 1700000000, trace = []\<rparr>"

section \<open>Lemmas on the rounding\<close>

lemma pow2_pos: "0 < pow2 k"
  by (simp add: pow2_def)

lemma round_even_nonneg: "0 \<le> y \<Longrightarrow> 0 \<le> round_even y"
  by (auto simp: round_even_def Let_def intro: add_nonneg_nonneg)

lemma to_double_nonneg: "0 \<le> x \<Longrightarrow> 0 \<le> to_double x"
  unfolding to_double_def Let_def
  using pow2_pos [of "max (expo x) (- 1022) - 52"]
  by (auto intro!: mult_nonneg_nonneg round_even_nonneg divide_nonneg_pos)

text \<open>\<open>expo\<close> is the binary exponent, and \<open>to_double\<close> moves a number by at most half the
  spacing of the doubles around it.\<close>

lemma round_even_error: "\<bar>real_of_int (round_even y) - y\<bar> \<le> 1 / 2"
  unfolding round_even_def Let_def
  by (auto simp: abs_le_iff)

lemma expo_bounds:
  assumes "x \<noteq> 0"
  shows "pow2 (expo x) \<le> \<bar>x\<bar> \<and> \<bar>x\<bar> < pow2 (expo x + 1)"
proof (cases "1 \<le> \<bar>x\<bar>")
  case True
  let ?n = "\<lfloor>\<bar>x\<bar>\<rfloor>"
  have n: "0 < ?n"
    using True by linarith
  have b: "2 ^ nat (bitlen ?n - 1) \<le> ?n" "?n < 2 ^ nat (bitlen ?n)"
    using bitlen_bounds [OF n] by simp_all
  have b1: "1 \<le> bitlen ?n"
    using n by (auto simp: bitlen_alt_def)
  have "real_of_int (2 ^ nat (bitlen ?n - 1)) \<le> real_of_int ?n"
    using b(1) by (simp only: of_int_le_iff)
  then have "(2::real) ^ nat (bitlen ?n - 1) \<le> real_of_int ?n"
    by simp
  moreover have "real_of_int ?n \<le> \<bar>x\<bar>"
    by (rule of_int_floor_le)
  ultimately have lo: "2 ^ nat (bitlen ?n - 1) \<le> \<bar>x\<bar>"
    by (rule order_trans)
  have "?n + 1 \<le> 2 ^ nat (bitlen ?n)"
    using b(2) by simp
  then have "real_of_int (?n + 1) \<le> real_of_int (2 ^ nat (bitlen ?n))"
    by (simp only: of_int_le_iff)
  then have "real_of_int ?n + 1 \<le> (2::real) ^ nat (bitlen ?n)"
    by simp
  moreover have "\<bar>x\<bar> < real_of_int ?n + 1"
    by linarith
  ultimately have hi: "\<bar>x\<bar> < 2 ^ nat (bitlen ?n)"
    by (rule less_le_trans [rotated])
  show ?thesis
    using True lo hi b1 by (simp add: expo_def pow2_def)
next
  case False
  let ?y = "1 / \<bar>x\<bar>"
  let ?m = "\<lceil>?y\<rceil> - 1"
  have x: "0 < \<bar>x\<bar>" "\<bar>x\<bar> < 1"
    using assms False by simp_all
  have y: "1 < ?y"
    using x by simp
  have m: "0 < ?m"
    using y by linarith
  have my: "real_of_int ?m < ?y" "?y \<le> real_of_int ?m + 1"
    by linarith+
  have b: "2 ^ nat (bitlen ?m - 1) \<le> ?m" "?m < 2 ^ nat (bitlen ?m)"
    using bitlen_bounds [OF m] by simp_all
  have b1: "1 \<le> bitlen ?m"
    using m by (auto simp: bitlen_alt_def)
  have "real_of_int (2 ^ nat (bitlen ?m - 1)) \<le> real_of_int ?m"
    using b(1) by (simp only: of_int_le_iff)
  then have "(2::real) ^ nat (bitlen ?m - 1) \<le> real_of_int ?m"
    by (simp only: of_int_power of_int_numeral)
  then have lo: "2 ^ nat (bitlen ?m - 1) < ?y"
    using my(1) by (rule le_less_trans)
  have "?m + 1 \<le> 2 ^ nat (bitlen ?m)"
    using b(2) by simp
  then have "real_of_int (?m + 1) \<le> real_of_int (2 ^ nat (bitlen ?m))"
    by (simp only: of_int_le_iff)
  then have "real_of_int ?m + 1 \<le> (2::real) ^ nat (bitlen ?m)"
    by (simp only: of_int_add of_int_1 of_int_power of_int_numeral)
  with my(2) have hi: "?y \<le> 2 ^ nat (bitlen ?m)"
    by (rule order_trans)
  have p1: "1 / 2 ^ nat (bitlen ?m) \<le> \<bar>x\<bar>"
    using hi x(1) by (simp add: field_simps)
  have p2: "\<bar>x\<bar> < 1 / 2 ^ nat (bitlen ?m - 1)"
    using lo x(1) by (simp add: field_simps)
  have e: "expo x = - bitlen ?m"
    using False by (simp add: expo_def)
  show ?thesis
  proof (cases "bitlen ?m = 1")
    case True
    then show ?thesis
      using p1 p2 e by (simp add: pow2_def)
  next
    case False
    then have "2 \<le> bitlen ?m"
      using b1 by simp
    then have "nat (bitlen ?m - 1) = nat (- (- bitlen ?m + 1))" "\<not> 0 \<le> - bitlen ?m + 1"
      "\<not> 0 \<le> - bitlen ?m"
      by simp_all
    then show ?thesis
      using p1 p2 e by (simp add: pow2_def)
  qed
qed

lemma to_double_error:
  "\<bar>to_double x - x\<bar> \<le> pow2 (max (expo x) (- 1022) - 52) / 2"
proof (cases "x = 0")
  case True
  then show ?thesis
    using pow2_pos [of "max (expo x) (- 1022) - 52"] by (simp add: to_double_def)
next
  case False
  let ?u = "pow2 (max (expo x) (- 1022) - 52)"
  have u: "0 < ?u"
    by (rule pow2_pos)
  have "\<bar>real_of_int (round_even (x / ?u)) - x / ?u\<bar> \<le> 1 / 2"
    by (rule round_even_error)
  then have "\<bar>real_of_int (round_even (x / ?u)) - x / ?u\<bar> * ?u \<le> 1 / 2 * ?u"
    using u by (intro mult_right_mono) simp_all
  moreover have "\<bar>real_of_int (round_even (x / ?u)) - x / ?u\<bar> * ?u =
                   \<bar>real_of_int (round_even (x / ?u)) * ?u - x\<bar>"
  proof -
    have "\<bar>real_of_int (round_even (x / ?u)) - x / ?u\<bar> * ?u =
            \<bar>(real_of_int (round_even (x / ?u)) - x / ?u) * ?u\<bar>"
      using u by (simp add: abs_mult)
    also have "(real_of_int (round_even (x / ?u)) - x / ?u) * ?u =
                 real_of_int (round_even (x / ?u)) * ?u - x"
      using u by (simp add: left_diff_distrib)
    finally show ?thesis .
  qed
  ultimately show ?thesis
    using False by (simp add: to_double_def Let_def)
qed

section \<open>Lemmas on the primitives and the loop\<close>

text \<open>The unfoldings that evaluate a concrete run.\<close>

lemmas to_double_numeral =
  to_double_def [of 0] to_double_def [of 1] to_double_def [of "numeral a"]
  to_double_def [of "- numeral a"] to_double_def [of "numeral a / numeral b"]
  to_double_def [of "- (numeral a / numeral b)"] to_double_def [of "- 1"]
  to_double_def [of "1 / numeral b"] to_double_def [of "- (1 / numeral b)"]
  for a b

lemmas float_defs = to_double_numeral expo_def pow2_def round_even_def float_sub_def is_double_def
  bitlen_def compute_floorlog Let_def

lemmas run_defs = elapsed_time_def events_of_def call_pipeline_def time_time_def getattr_def truediv_def
  warmup_args_def timed_args_def world0_def world_zero_def world_epoch_def result_obj_def bare_obj_def
  float_defs

lemma timed_loop_numeral:
  "timed_loop pipeline a (numeral k) w =
     (case call_pipeline pipeline a w of
        (Inl e, w') \<Rightarrow> (Inl e, w')
      | (Inr x, w') \<Rightarrow> timed_loop pipeline a (pred_numeral k) w')"
  by (simp add: numeral_eq_Suc)

text \<open>What one invocation does to each component of the world.\<close>

lemma call_pipeline_trace:
  "trace (snd (call_pipeline pipeline a w)) = trace w @ [Invoke a]"
  by (simp add: call_pipeline_def split: prod.splits)

lemma call_pipeline_pstate:
  "pstate (snd (call_pipeline pipeline a w)) = fst (snd (pipeline a (pstate w)))"
  by (simp add: call_pipeline_def split: prod.splits)

lemma call_pipeline_clock:
  "clock (snd (call_pipeline pipeline a w)) = clock w + snd (snd (pipeline a (pstate w)))"
  by (simp add: call_pipeline_def split: prod.splits)

lemma call_pipeline_result:
  "fst (call_pipeline pipeline a w) =
     (case fst (pipeline a (pstate w)) of Inl e \<Rightarrow> Inl (Raised e) | Inr out \<Rightarrow> Inr out)"
  by (simp add: call_pipeline_def split: prod.splits)

lemma call_pipeline_raises:
  assumes "fst (pipeline a (pstate w)) = Inl e"
  shows "call_pipeline pipeline a w = (Inl (Raised e), snd (call_pipeline pipeline a w))"
  using assms call_pipeline_result [of pipeline a w]
  by (simp add: prod_eq_iff)

lemma invocations_append: "invocations (xs @ ys) = invocations xs @ invocations ys"
  by (induction xs rule: invocations.induct) simp_all

lemma invocations_replicate: "invocations (replicate m (Invoke a)) = replicate m a"
  by (induction m) simp_all

text \<open>
  The loop performs some number \<open>m\<close> of invocations, at most the number asked for and
  exactly that number when it runs to its end; the pipeline's state afterwards is the one
  these \<open>m\<close> invocations produce.
\<close>

lemma timed_loop_events:
  "\<exists>m\<le>n. trace (snd (timed_loop pipeline a n w)) = trace w @ replicate m (Invoke a) \<and>
          pstate (snd (timed_loop pipeline a n w)) = replay pipeline (replicate m a) (pstate w) \<and>
          (\<forall>u. fst (timed_loop pipeline a n w) = Inr u \<longrightarrow> m = n)"
proof (induction n arbitrary: w)
  case 0
  show ?case by simp
next
  case (Suc n)
  obtain r w1 where c: "call_pipeline pipeline a w = (r, w1)"
    by (cases "call_pipeline pipeline a w")
  have t: "trace w1 = trace w @ [Invoke a]"
    using call_pipeline_trace [of pipeline a w] c by simp
  have s: "pstate w1 = fst (snd (pipeline a (pstate w)))"
    using call_pipeline_pstate [of pipeline a w] c by simp
  show ?case
  proof (cases r)
    case (Inl e)
    have "trace (snd (timed_loop pipeline a (Suc n) w)) = trace w @ replicate 1 (Invoke a)"
      using c Inl t by simp
    moreover have "pstate (snd (timed_loop pipeline a (Suc n) w)) = replay pipeline (replicate 1 a) (pstate w)"
      using c Inl s by simp
    moreover have "\<forall>u. fst (timed_loop pipeline a (Suc n) w) \<noteq> Inr u"
      using c Inl by simp
    ultimately show ?thesis
      by (intro exI [of _ 1]) simp
  next
    case (Inr out)
    have eq: "timed_loop pipeline a (Suc n) w = timed_loop pipeline a n w1"
      using c Inr by simp
    from Suc.IH [of w1] obtain m where m: "m \<le> n"
      "trace (snd (timed_loop pipeline a n w1)) = trace w1 @ replicate m (Invoke a)"
      "pstate (snd (timed_loop pipeline a n w1)) = replay pipeline (replicate m a) (pstate w1)"
      "\<forall>u. fst (timed_loop pipeline a n w1) = Inr u \<longrightarrow> m = n"
      by blast
    show ?thesis
      using m eq t s
      by (intro exI [of _ "Suc m"]) (simp add: replicate_app_Cons_same)
  qed
qed

lemma timed_loop_returns:
  assumes "timed_loop pipeline a n w = (Inr u, w')"
  shows "trace w' = trace w @ replicate n (Invoke a)"
  using timed_loop_events [of n pipeline a w] assms by auto

lemma timed_loop_add:
  "timed_loop pipeline a (m + n) w =
     (case timed_loop pipeline a m w of
        (Inl e, w') \<Rightarrow> (Inl e, w')
      | (Inr u, w') \<Rightarrow> timed_loop pipeline a n w')"
  by (induction m arbitrary: w) (auto split: prod.splits sum.splits)




section \<open>Lemmas on a whole run\<close>

text \<open>The path through \<open>elapsed_time\<close> that reaches the final division, in both directions.\<close>

lemma elapsed_time_reaches_end:
  assumes "call_pipeline pipeline (warmup_args p) w = (Inr out, w1)"
    and "out ''images'' = Some img"
    and "timed_loop pipeline (timed_args p steps) (nat nb_pass) (snd (time_time w1)) = (Inr (), w3)"
  shows "elapsed_time pipeline p nb_pass steps w =
           (truediv (float_sub (to_double (clock w3)) (to_double (clock w1))) nb_pass,
            snd (time_time w3))"
  using assms by (simp add: elapsed_time_def getattr_def time_time_def)

lemma truediv_Inr:
  assumes "truediv x n = Inr r"
  shows "n \<noteq> 0" and "r = to_double (x / to_double (real_of_int n))"
  using assms by (auto simp: truediv_def split: if_splits)

lemma elapsed_time_Inr_cases:
  assumes "elapsed_time pipeline p nb_pass steps w = (Inr r, w')"
  obtains out img w1 w3 where
    "call_pipeline pipeline (warmup_args p) w = (Inr out, w1)"
    "out ''images'' = Some img"
    "timed_loop pipeline (timed_args p steps) (nat nb_pass) (snd (time_time w1)) = (Inr (), w3)"
    "nb_pass \<noteq> 0"
    "r = to_double (float_sub (to_double (clock w3)) (to_double (clock w1)) /
           to_double (real_of_int nb_pass))"
    "w' = snd (time_time w3)"
proof -
  let ?a = "timed_args p steps"
  obtain r1 w1 where c: "call_pipeline pipeline (warmup_args p) w = (r1, w1)"
    by (cases "call_pipeline pipeline (warmup_args p) w")
  obtain out where o: "r1 = Inr out"
    using assms c by (cases r1) (simp_all add: elapsed_time_def)
  obtain img where i: "out ''images'' = Some img"
    using assms c o by (cases "out ''images''") (simp_all add: elapsed_time_def getattr_def)
  obtain r3 w3 where l: "timed_loop pipeline ?a (nat nb_pass) (snd (time_time w1)) = (r3, w3)"
    by (cases "timed_loop pipeline ?a (nat nb_pass) (snd (time_time w1))")
  have r3: "r3 = Inr ()"
    using assms c o i l by (cases r3) (simp_all add: elapsed_time_def getattr_def time_time_def)
  have run: "elapsed_time pipeline p nb_pass steps w =
               (truediv (float_sub (to_double (clock w3)) (to_double (clock w1))) nb_pass,
                snd (time_time w3))"
  proof -
    have c': "call_pipeline pipeline (warmup_args p) w = (Inr out, w1)"
      using c o by simp
    have l': "timed_loop pipeline ?a (nat nb_pass) (snd (time_time w1)) = (Inr (), w3)"
      using l r3 by simp
    show ?thesis
      by (rule elapsed_time_reaches_end [OF c' i l'])
  qed
  have d: "truediv (float_sub (to_double (clock w3)) (to_double (clock w1))) nb_pass =
             (Inr r :: 'a py_error + real)"
    and w': "w' = snd (time_time w3)"
    using assms run by simp_all
  show thesis
    using that [of out w1 img w3] c o i l r3 truediv_Inr [OF d] w' by simp
qed

text \<open>The events of a run that returned: the warm-up, the first reading of the clock, every
  timed invocation, the second reading.\<close>

lemma successful_run_events:
  assumes "elapsed_time pipeline p nb_pass steps w = (Inr r, w')"
  shows "events_of pipeline p nb_pass steps w =
           [Invoke (warmup_args p),
            ReadClock (to_double (clock (snd (call_pipeline pipeline (warmup_args p) w))))] @
           replicate (nat nb_pass) (Invoke (timed_args p steps)) @
           [ReadClock (to_double (clock w'))]"
proof -
  let ?a = "timed_args p steps"
  obtain out img w1 w3 where
    c: "call_pipeline pipeline (warmup_args p) w = (Inr out, w1)" and
    l: "timed_loop pipeline ?a (nat nb_pass) (snd (time_time w1)) = (Inr (), w3)" and
    w': "w' = snd (time_time w3)"
    using assms by (rule elapsed_time_Inr_cases)
  have t1: "trace w1 = trace w @ [Invoke (warmup_args p)]"
    using call_pipeline_trace [of pipeline "warmup_args p" w] c by simp
  have t3: "trace w3 = trace w @ [Invoke (warmup_args p), ReadClock (to_double (clock w1))] @
              replicate (nat nb_pass) (Invoke ?a)"
    using timed_loop_returns [OF l] t1 by (simp add: time_time_def)
  show ?thesis
    by (simp add: events_of_def assms w' t3 c time_time_def)
qed

text \<open>The shape of every run, returned or not: the warm-up invocation first, then at most
  \<open>nat nb_pass\<close> timed invocations among the later events, and all \<open>nat nb_pass\<close> of them
  when the run returns a value.\<close>

lemma elapsed_time_shape:
  "\<exists>m es. m \<le> nat nb_pass \<and>
     trace (snd (elapsed_time pipeline p nb_pass steps w)) = trace w @ Invoke (warmup_args p) # es \<and>
     invocations es = replicate m (timed_args p steps) \<and>
     pstate (snd (elapsed_time pipeline p nb_pass steps w)) =
       replay pipeline (warmup_args p # replicate m (timed_args p steps)) (pstate w) \<and>
     (\<forall>r. fst (elapsed_time pipeline p nb_pass steps w) = Inr r \<longrightarrow> m = nat nb_pass)"
proof -
  let ?a = "timed_args p steps"
  let ?run = "elapsed_time pipeline p nb_pass steps w"
  obtain r1 w1 where c: "call_pipeline pipeline (warmup_args p) w = (r1, w1)"
    by (cases "call_pipeline pipeline (warmup_args p) w")
  have t1: "trace w1 = trace w @ [Invoke (warmup_args p)]"
    using call_pipeline_trace [of pipeline "warmup_args p" w] c by simp
  have s1: "pstate w1 = fst (snd (pipeline (warmup_args p) (pstate w)))"
    using call_pipeline_pstate [of pipeline "warmup_args p" w] c by simp
  have stop: ?thesis if "snd ?run = w1" and "\<forall>r. fst ?run \<noteq> Inr r"
    using that t1 s1 by (intro exI [of _ 0] exI [of _ "[]"]) simp
  show ?thesis
  proof (cases r1)
    case (Inl e)
    then show ?thesis using c stop by (simp add: elapsed_time_def)
  next
    case (Inr out)
    show ?thesis
    proof (cases "out ''images''")
      case None
      then show ?thesis using c Inr stop by (simp add: elapsed_time_def getattr_def)
    next
      case (Some img)
      let ?w2 = "snd (time_time w1)"
      obtain r3 w3 where l: "timed_loop pipeline ?a (nat nb_pass) ?w2 = (r3, w3)"
        by (cases "timed_loop pipeline ?a (nat nb_pass) ?w2")
      obtain m where m: "m \<le> nat nb_pass"
        "trace w3 = trace ?w2 @ replicate m (Invoke ?a)"
        "pstate w3 = replay pipeline (replicate m ?a) (pstate ?w2)"
        "\<forall>u. r3 = Inr u \<longrightarrow> m = nat nb_pass"
        using timed_loop_events [of "nat nb_pass" pipeline ?a ?w2] l by auto
      have t3: "trace w3 = trace w @ Invoke (warmup_args p) # ReadClock (to_double (clock w1)) #
                  replicate m (Invoke ?a)"
        using m(2) t1 by (simp add: time_time_def)
      have s3: "pstate w3 = replay pipeline (warmup_args p # replicate m ?a) (pstate w)"
        using m(3) s1 by (simp add: time_time_def)
      show ?thesis
      proof (cases r3)
        case (Inl e)
        have "?run = (Inl e, w3)"
          using c Inr Some l Inl by (simp add: elapsed_time_def getattr_def time_time_def)
        then show ?thesis
          using m(1) t3 s3
          by (intro exI [of _ m]
                exI [of _ "ReadClock (to_double (clock w1)) # replicate m (Invoke ?a)"])
             (simp add: invocations_replicate)
      next
        case (Inr u)
        have "snd ?run = snd (time_time w3)"
          using c \<open>r1 = Inr out\<close> Some l Inr
          by (simp add: elapsed_time_def getattr_def time_time_def)
        then show ?thesis
          using m(1) m(4) Inr t3 s3
          by (intro exI [of _ m]
                exI [of _ "ReadClock (to_double (clock w1)) # replicate m (Invoke ?a) @
                           [ReadClock (to_double (clock w3))]"])
             (simp add: invocations_replicate invocations_append time_time_def)
      qed
    qed
  qed
qed

lemma events_of_shape:
  "\<exists>m es. m \<le> nat nb_pass \<and>
     events_of pipeline p nb_pass steps w = Invoke (warmup_args p) # es \<and>
     invocations es = replicate m (timed_args p steps) \<and>
     pstate (snd (elapsed_time pipeline p nb_pass steps w)) =
       replay pipeline (warmup_args p # replicate m (timed_args p steps)) (pstate w) \<and>
     (\<forall>r. fst (elapsed_time pipeline p nb_pass steps w) = Inr r \<longrightarrow> m = nat nb_pass)"
  using elapsed_time_shape [of nb_pass pipeline p steps w]
  by (auto simp: events_of_def)

text \<open>The outcome of a run, read off the warm-up call and the loop.\<close>

lemma elapsed_time_outcome:
  "fst (elapsed_time pipeline p nb_pass steps w) =
     (case fst (pipeline (warmup_args p) (pstate w)) of
        Inl e \<Rightarrow> Inl (Raised e)
      | Inr out \<Rightarrow>
          (case out ''images'' of
             None \<Rightarrow> Inl (AttributeError ''images'')
           | Some img \<Rightarrow>
               (let w1 = snd (call_pipeline pipeline (warmup_args p) w);
                    l = timed_loop pipeline (timed_args p steps) (nat nb_pass) (snd (time_time w1))
                in case fst l of
                     Inl e \<Rightarrow> Inl e
                   | Inr u \<Rightarrow>
                       truediv (float_sub (to_double (clock (snd l))) (to_double (clock w1)))
                         nb_pass)))"
proof -
  obtain r1 w1 where c: "call_pipeline pipeline (warmup_args p) w = (r1, w1)"
    by (cases "call_pipeline pipeline (warmup_args p) w")
  have r1: "r1 = (case fst (pipeline (warmup_args p) (pstate w)) of
                    Inl e \<Rightarrow> Inl (Raised e) | Inr out \<Rightarrow> Inr out)"
    using call_pipeline_result [of pipeline "warmup_args p" w] c by simp
  show ?thesis
    using r1
    by (simp add: elapsed_time_def c getattr_def time_time_def Let_def
        split: prod.splits sum.splits option.splits)
qed



text \<open>No \<open>ZeroDivisionError\<close> of the harness with a trial count other than zero: the
  exceptions of the pipeline are carried under \<open>Raised\<close>.\<close>

lemma elapsed_time_no_division_error:
  assumes "nb_pass \<noteq> 0"
  shows "fst (elapsed_time pipeline p nb_pass steps w) \<noteq> Inl ZeroDivisionError"
proof -
  have loop: "fst (timed_loop pipeline a n v) \<noteq> Inl ZeroDivisionError" for a n v
  proof (induction n arbitrary: v)
    case 0
    show ?case by simp
  next
    case (Suc n)
    show ?case
      using Suc.IH call_pipeline_result [of pipeline a v]
      by (auto split: prod.splits sum.splits)
  qed
  show ?thesis
    unfolding elapsed_time_outcome
    using assms loop [of "timed_args p steps" "nat nb_pass"]
    by (auto simp: Let_def truediv_def split: sum.splits option.splits)
qed




section \<open>Invocations and average of a benchmark that succeeds\<close>




section \<open>The average is taken over the timed region\<close>

text \<open>
  Claim C2. For every run of \<open>elapsed_time\<close> that returns a value \<open>r\<close>: the warm-up
  invocation returned, the start timestamp was read after it and before the first timed
  invocation, the end timestamp was read after the last of the \<open>nb_pass\<close> timed
  invocations, and \<open>r\<close> is \<open>(end - start) / nb_pass\<close> as Python computes it on these two
  readings. The start timestamp is the reading of a clock that stands at its value at the
  call of \<open>elapsed_time\<close> plus the duration of the warm-up, so the warm-up's cost is not
  part of the measured interval.
\<close>

theorem average_excludes_warmup:
  assumes "elapsed_time pipeline p nb_pass steps w = (Inr r, w')"
  shows "\<exists>out w1. call_pipeline pipeline (warmup_args p) w = (Inr out, w1) \<and>
           events_of pipeline p nb_pass steps w =
             [Invoke (warmup_args p), ReadClock (to_double (clock w1))] @
             replicate (nat nb_pass) (Invoke (timed_args p steps)) @
             [ReadClock (to_double (clock w'))] \<and>
           clock w1 = clock w + snd (snd (pipeline (warmup_args p) (pstate w))) \<and>
           nb_pass \<noteq> 0 \<and>
           r = to_double (float_sub (to_double (clock w')) (to_double (clock w1)) /
                 to_double (real_of_int nb_pass))"
proof -
  obtain out img w1 w3 where
    c: "call_pipeline pipeline (warmup_args p) w = (Inr out, w1)" and
    n: "nb_pass \<noteq> 0" and
    r: "r = to_double (float_sub (to_double (clock w3)) (to_double (clock w1)) /
              to_double (real_of_int nb_pass))" and
    w': "w' = snd (time_time w3)"
    using assms by (rule elapsed_time_Inr_cases)
  have k1: "clock w1 = clock w + snd (snd (pipeline (warmup_args p) (pstate w)))"
    using call_pipeline_clock [of pipeline "warmup_args p" w] c by simp
  have ev: "events_of pipeline p nb_pass steps w =
              [Invoke (warmup_args p), ReadClock (to_double (clock w1))] @
              replicate (nat nb_pass) (Invoke (timed_args p steps)) @
              [ReadClock (to_double (clock w'))]"
    using successful_run_events [OF assms] c by simp
  have k': "clock w' = clock w3"
    by (simp add: w' time_time_def)
  show ?thesis
    using c ev k1 n r k' by simp
qed

text \<open>At the two-second pipeline: the readings are 5002 and 5010, and \<open>(5010 - 5002) / 4\<close>
  is 2.\<close>

theorem average_excludes_warmup_witness:
  "elapsed_time steady ''ship'' 4 20 world0 =
     (Inr 2, \<lparr>pstate = 5, clock = 5010, trace =
        [Invoke (warmup_args ''ship''), ReadClock 5002,
         Invoke (timed_args ''ship'' 20), Invoke (timed_args ''ship'' 20),
         Invoke (timed_args ''ship'' 20), Invoke (timed_args ''ship'' 20),
         ReadClock 5010]\<rparr>) \<and>
   (\<exists>out w1. call_pipeline steady (warmup_args ''ship'') world0 = (Inr out, w1) \<and>
      events_of steady ''ship'' 4 20 world0 =
        [Invoke (warmup_args ''ship''), ReadClock (to_double (clock w1))] @
        replicate (nat 4) (Invoke (timed_args ''ship'' 20)) @ [ReadClock 5010] \<and>
      clock w1 = clock world0 + snd (snd (steady (warmup_args ''ship'') (pstate world0))) \<and>
      (4::int) \<noteq> 0 \<and>
      (2::real) = to_double (float_sub 5010 (to_double (clock w1)) / to_double (real_of_int 4)))"
proof -
  have run: "elapsed_time steady ''ship'' 4 20 world0 =
     (Inr 2, \<lparr>pstate = 5, clock = 5010, trace =
        [Invoke (warmup_args ''ship''), ReadClock 5002,
         Invoke (timed_args ''ship'' 20), Invoke (timed_args ''ship'' 20),
         Invoke (timed_args ''ship'' 20), Invoke (timed_args ''ship'' 20),
         ReadClock 5010]\<rparr>)"
    by (simp add: run_defs steady_def timed_loop_numeral)
  have x: "to_double 5010 = 5010"
    by (simp add: float_defs)
  show ?thesis
    using average_excludes_warmup [OF run] run x by simp
qed

section \<open>Failure of the warm-up invocation\<close>

text \<open>
  Claim C3. If the pipeline raises on the warm-up invocation, the run ends with exactly
  that exception; the only event of the run is the warm-up invocation itself: no timed
  invocation, no reading of the clock, no second attempt, and no average is returned.
\<close>

theorem warmup_failure_propagates:
  assumes "fst (pipeline (warmup_args p) (pstate w)) = Inl e"
  shows "fst (elapsed_time pipeline p nb_pass steps w) = Inl (Raised e) \<and>
         events_of pipeline p nb_pass steps w = [Invoke (warmup_args p)]"
proof -
  obtain w1 where c: "call_pipeline pipeline (warmup_args p) w = (Inl (Raised e), w1)"
    using call_pipeline_raises [of pipeline "warmup_args p" w e] assms by blast
  have t: "trace w1 = trace w @ [Invoke (warmup_args p)]"
    using call_pipeline_trace [of pipeline "warmup_args p" w] c by simp
  show ?thesis
    by (simp add: elapsed_time_def events_of_def c t)
qed

theorem warmup_failure_propagates_witness:
  "fst (broken (warmup_args ''ship'') (pstate world0)) = Inl ''out of memory'' \<and>
   fst (elapsed_time broken ''ship'' 4 20 world0) = Inl (Raised ''out of memory'') \<and>
   events_of broken ''ship'' 4 20 world0 = [Invoke (warmup_args ''ship'')]"
  using warmup_failure_propagates [of broken "''ship''" world0 "''out of memory''" 4 20]
  by (simp add: broken_def)

section \<open>Failure of a timed invocation\<close>

text \<open>
  Claim C4. For every \<open>k\<close> with \<open>1 \<le> k \<le> nb_pass\<close>: if the warm-up and the first
  \<open>k - 1\<close> timed invocations return and the pipeline raises on the \<open>k\<close>-th timed
  invocation, the run ends with exactly that exception, and its events are the warm-up,
  the start timestamp and \<open>k\<close> timed invocations: the invocations \<open>k + 1\<close> to \<open>nb_pass\<close>
  do not happen, and no end timestamp is read.
\<close>

theorem timed_failure_propagates:
  assumes "1 \<le> k" and "k \<le> nat nb_pass"
    and "call_pipeline pipeline (warmup_args p) w = (Inr out, w1)"
    and "out ''images'' = Some img"
    and "timed_loop pipeline (timed_args p steps) (k - 1) (snd (time_time w1)) = (Inr (), wk)"
    and "fst (pipeline (timed_args p steps) (pstate wk)) = Inl e"
  shows "fst (elapsed_time pipeline p nb_pass steps w) = Inl (Raised e) \<and>
         events_of pipeline p nb_pass steps w =
           [Invoke (warmup_args p), ReadClock (to_double (clock w1))] @
           replicate k (Invoke (timed_args p steps))"
proof -
  let ?a = "timed_args p steps"
  let ?w2 = "snd (time_time w1)"
  obtain wf where ck: "call_pipeline pipeline ?a wk = (Inl (Raised e), wf)"
    using call_pipeline_raises [of pipeline ?a wk e] assms(6) by blast
  have split: "nat nb_pass = (k - 1) + Suc (nat nb_pass - k)"
    using assms(1,2) by simp
  have "timed_loop pipeline ?a (nat nb_pass) ?w2 =
          timed_loop pipeline ?a (Suc (nat nb_pass - k)) wk"
    using timed_loop_add [of pipeline ?a "k - 1" "Suc (nat nb_pass - k)" ?w2] assms(5) split
    by simp
  then have l: "timed_loop pipeline ?a (nat nb_pass) ?w2 = (Inl (Raised e), wf)"
    using ck by simp
  have run: "elapsed_time pipeline p nb_pass steps w = (Inl (Raised e), wf)"
    using assms(3,4) l by (simp add: elapsed_time_def getattr_def time_time_def)
  have t1: "trace w1 = trace w @ [Invoke (warmup_args p)]"
    using call_pipeline_trace [of pipeline "warmup_args p" w] assms(3) by simp
  have tk: "trace wk = trace ?w2 @ replicate (k - 1) (Invoke ?a)"
    by (rule timed_loop_returns [OF assms(5)])
  have "trace wf = trace wk @ replicate 1 (Invoke ?a)"
    using call_pipeline_trace [of pipeline ?a wk] ck by simp
  then have "trace wf = trace ?w2 @ replicate ((k - 1) + 1) (Invoke ?a)"
    unfolding tk replicate_add by simp
  then have tf: "trace wf = trace w @ [Invoke (warmup_args p), ReadClock (to_double (clock w1))] @
                   replicate k (Invoke ?a)"
    using assms(1) t1 by (simp add: time_time_def)
  show ?thesis
    by (simp add: run events_of_def tf)
qed

text \<open>The pipeline \<open>flaky\<close> raises on the second of four timed invocations.\<close>

theorem timed_failure_propagates_witness:
  "(1::nat) \<le> 2 \<and> (2::nat) \<le> nat 4 \<and>
   fst (flaky (timed_args ''ship'' 20) 2) = Inl ''out of memory'' \<and>
   fst (elapsed_time flaky ''ship'' 4 20 world0) = Inl (Raised ''out of memory'') \<and>
   events_of flaky ''ship'' 4 20 world0 =
     [Invoke (warmup_args ''ship''), ReadClock 5002,
      Invoke (timed_args ''ship'' 20), Invoke (timed_args ''ship'' 20)]"
proof -
  let ?w1 = "\<lparr>pstate = 1, clock = 5002, trace = [Invoke (warmup_args ''ship'')]\<rparr> :: nat world"
  let ?wk = "\<lparr>pstate = 2, clock = 5004, trace =
      [Invoke (warmup_args ''ship''), ReadClock 5002, Invoke (timed_args ''ship'' 20)]\<rparr> :: nat world"
  have x: "to_double 5002 = 5002"
    by (simp add: float_defs)
  have a: "(1::nat) \<le> 2" and b: "(2::nat) \<le> nat 4"
    by simp_all
  have c: "call_pipeline flaky (warmup_args ''ship'') world0 = (Inr result_obj, ?w1)"
    by (simp add: call_pipeline_def flaky_def world0_def)
  have d: "result_obj ''images'' = Some 1"
    by (simp add: result_obj_def)
  have e: "timed_loop flaky (timed_args ''ship'' 20) (2 - 1) (snd (time_time ?w1)) = (Inr (), ?wk)"
    by (simp add: call_pipeline_def flaky_def time_time_def x)
  have f: "fst (flaky (timed_args ''ship'' 20) (pstate ?wk)) = Inl ''out of memory''"
    by (simp add: flaky_def)
  have r: "replicate 2 (Invoke (timed_args ''ship'' 20)) =
             [Invoke (timed_args ''ship'' 20), Invoke (timed_args ''ship'' 20)]"
    by (simp add: numeral_2_eq_2)
  show ?thesis
    using timed_failure_propagates [OF a b c d e f] f x r by simp
qed

section \<open>Step counts of the invocations\<close>

text \<open>
  Claim C5. In every run of \<open>elapsed_time\<close>, whatever its outcome, the first event is the
  warm-up invocation and it passes the step count 10, whatever \<open>num_inference_steps\<close> is;
  every later invocation passes the caller's \<open>num_inference_steps\<close>; all of them pass the
  caller's prompt. There are at most \<open>nb_pass\<close> later invocations, and exactly \<open>nb_pass\<close>
  of them (none for a negative \<open>nb_pass\<close>) when the run returns a value.
\<close>

theorem warmup_steps_fixed_timed_steps_given:
  "\<exists>m es. m \<le> nat nb_pass \<and>
     events_of pipeline p nb_pass steps w = Invoke (warmup_args p) # es \<and>
     num_inference_steps (warmup_args p) = 10 \<and>
     map num_inference_steps (invocations es) = replicate m steps \<and>
     map prompt (invocations (events_of pipeline p nb_pass steps w)) = replicate (Suc m) p \<and>
     (\<forall>r. fst (elapsed_time pipeline p nb_pass steps w) = Inr r \<longrightarrow> m = nat nb_pass)"
proof -
  obtain m es where "m \<le> nat nb_pass"
    "events_of pipeline p nb_pass steps w = Invoke (warmup_args p) # es"
    "invocations es = replicate m (timed_args p steps)"
    "\<forall>r. fst (elapsed_time pipeline p nb_pass steps w) = Inr r \<longrightarrow> m = nat nb_pass"
    using events_of_shape [of nb_pass pipeline p steps w] by blast
  then show ?thesis
    by (intro exI [of _ m] exI [of _ es]) (simp add: warmup_args_def timed_args_def)
qed

text \<open>A run that returns: the two-second pipeline with four passes of twenty steps. The
  step counts passed are 10 once and then 20 four times.\<close>

theorem warmup_steps_fixed_timed_steps_given_witness:
  "fst (elapsed_time steady ''ship'' 4 20 world0) = Inr 2 \<and>
   (\<exists>m es. m \<le> nat 4 \<and>
      events_of steady ''ship'' 4 20 world0 = Invoke (warmup_args ''ship'') # es \<and>
      map num_inference_steps (invocations es) = replicate m 20 \<and>
      m = nat 4) \<and>
   map num_inference_steps (invocations (events_of steady ''ship'' 4 20 world0)) =
     [10, 20, 20, 20, 20]"
proof -
  have r: "fst (elapsed_time steady ''ship'' 4 20 world0) = Inr 2"
    by (simp add: run_defs steady_def timed_loop_numeral)
  obtain m es where m: "m \<le> nat 4"
    "events_of steady ''ship'' 4 20 world0 = Invoke (warmup_args ''ship'') # es"
    "map num_inference_steps (invocations es) = replicate m 20"
    "\<forall>r. fst (elapsed_time steady ''ship'' 4 20 world0) = Inr r \<longrightarrow> m = nat 4"
    using warmup_steps_fixed_timed_steps_given [of 4 steady "''ship''" 20 world0] by blast
  have m4: "m = nat 4"
    using m(4) r by blast
  have four: "replicate (nat 4) (20::int) = [20, 20, 20, 20]"
    by (simp add: eval_nat_numeral)
  have "map num_inference_steps (invocations (events_of steady ''ship'' 4 20 world0)) =
          [10, 20, 20, 20, 20]"
    using m(2,3) m4 four by (simp add: warmup_args_def)
  then show ?thesis
    using r m m4 by blast
qed

section \<open>Sign of the average\<close>

text \<open>
  Claim C6. For every run of \<open>elapsed_time\<close> with positive \<open>nb_pass\<close> that returns a value,
  and in which the end timestamp is not earlier than the start timestamp, the value is
  non-negative; and the warm-up invocation has returned before the start timestamp, the
  first of the two the value is computed from, is read.
\<close>

theorem average_nonnegative:
  assumes "elapsed_time pipeline p nb_pass steps w = (Inr r, w')"
    and "0 < nb_pass"
    and "to_double (clock (snd (call_pipeline pipeline (warmup_args p) w))) \<le> to_double (clock w')"
  shows "0 \<le> r \<and>
         (\<exists>out es. fst (call_pipeline pipeline (warmup_args p) w) = Inr out \<and>
            events_of pipeline p nb_pass steps w =
              Invoke (warmup_args p) #
              ReadClock (to_double (clock (snd (call_pipeline pipeline (warmup_args p) w)))) # es)"
proof -
  obtain out img w1 w3 where
    c: "call_pipeline pipeline (warmup_args p) w = (Inr out, w1)" and
    r: "r = to_double (float_sub (to_double (clock w3)) (to_double (clock w1)) /
              to_double (real_of_int nb_pass))" and
    w': "w' = snd (time_time w3)"
    using assms(1) by (rule elapsed_time_Inr_cases)
  have "clock w' = clock w3"
    by (simp add: w' time_time_def)
  then have "0 \<le> to_double (clock w3) - to_double (clock w1)"
    using assms(3) c by simp
  then have "0 \<le> float_sub (to_double (clock w3)) (to_double (clock w1))"
    unfolding float_sub_def by (rule to_double_nonneg)
  moreover have "0 \<le> to_double (real_of_int nb_pass)"
    using assms(2) by (intro to_double_nonneg) simp
  ultimately have "0 \<le> float_sub (to_double (clock w3)) (to_double (clock w1)) /
                       to_double (real_of_int nb_pass)"
    by (rule divide_nonneg_nonneg)
  then have "0 \<le> r"
    unfolding r by (rule to_double_nonneg)
  then show ?thesis
    using c successful_run_events [OF assms(1)] by simp
qed

theorem average_nonnegative_witness:
  "elapsed_time steady ''ship'' 4 20 world0 =
     (Inr 2, \<lparr>pstate = 5, clock = 5010, trace =
        [Invoke (warmup_args ''ship''), ReadClock 5002,
         Invoke (timed_args ''ship'' 20), Invoke (timed_args ''ship'' 20),
         Invoke (timed_args ''ship'' 20), Invoke (timed_args ''ship'' 20),
         ReadClock 5010]\<rparr>) \<and>
   (0::int) < 4 \<and>
   to_double (clock (snd (call_pipeline steady (warmup_args ''ship'') world0))) \<le> to_double 5010 \<and>
   (0::real) \<le> 2 \<and>
   (\<exists>out es. fst (call_pipeline steady (warmup_args ''ship'') world0) = Inr out \<and>
      events_of steady ''ship'' 4 20 world0 =
        Invoke (warmup_args ''ship'') #
        ReadClock (to_double (clock (snd (call_pipeline steady (warmup_args ''ship'') world0)))) # es)"
proof -
  let ?w' = "\<lparr>pstate = 5, clock = 5010, trace =
        [Invoke (warmup_args ''ship''), ReadClock 5002,
         Invoke (timed_args ''ship'' 20), Invoke (timed_args ''ship'' 20),
         Invoke (timed_args ''ship'' 20), Invoke (timed_args ''ship'' 20),
         ReadClock 5010]\<rparr> :: nat world"
  have run: "elapsed_time steady ''ship'' 4 20 world0 = (Inr 2, ?w')"
    by (simp add: run_defs steady_def timed_loop_numeral)
  have pos: "(0::int) < 4"
    by simp
  have mono: "to_double (clock (snd (call_pipeline steady (warmup_args ''ship'') world0))) \<le>
      to_double (clock ?w')"
    by (simp add: call_pipeline_def steady_def world0_def float_defs)
  show ?thesis
    using average_nonnegative [OF run pos mono] run mono by simp
qed

text \<open>
  \<open>time.time()\<close> reads the wall clock, which is not monotonic. When the system clock is
  set back by an hour during the single timed invocation, the clock is read at 5002 and
  then at 1404, and the run returns a negative average.
\<close>

theorem average_nonnegative_counterexample:
  "(0::int) < 1 \<and>
   fst (elapsed_time clock_set_back ''ship'' 1 20 world0) = Inr (- 3598) \<and>
   \<not> (0::real) \<le> - 3598"
  by (simp add: run_defs clock_set_back_def)

section \<open>The harness only invokes the pipeline\<close>

text \<open>
  Claim C7. \<open>elapsed_time\<close> does not modify the pipeline it is given: after every run,
  whatever its outcome, the pipeline's state is the state its own invocations, the ones
  recorded in the run's events and in that order, produce from the state it had before.
\<close>

theorem harness_leaves_pipeline_state_to_invocations:
  "pstate (snd (elapsed_time pipeline p nb_pass steps w)) =
     replay pipeline (invocations (events_of pipeline p nb_pass steps w)) (pstate w)"
proof -
  obtain m es where
    "events_of pipeline p nb_pass steps w = Invoke (warmup_args p) # es"
    "invocations es = replicate m (timed_args p steps)"
    "pstate (snd (elapsed_time pipeline p nb_pass steps w)) =
       replay pipeline (warmup_args p # replicate m (timed_args p steps)) (pstate w)"
    using events_of_shape [of nb_pass pipeline p steps w] by blast
  then show ?thesis
    by simp
qed

section \<open>Repeating the benchmark\<close>




section \<open>A trial count of zero\<close>

text \<open>
  Claim C9. With \<open>nb_pass = 0\<close> the warm-up invocation is still made and it is the only
  invocation; when it returns an object with an \<open>images\<close> attribute, the two timestamps
  are read one after the other and the final division raises \<open>ZeroDivisionError\<close>. With
  \<open>nb_pass \<ge> 1\<close> no run ends with that error.
\<close>

theorem zero_passes_division_by_zero:
  "invocations (events_of pipeline p 0 steps w) = [warmup_args p] \<and>
   (fst (pipeline (warmup_args p) (pstate w)) = Inr out \<and> out ''images'' = Some img \<longrightarrow>
      fst (elapsed_time pipeline p 0 steps w) = Inl ZeroDivisionError \<and>
      events_of pipeline p 0 steps w =
        [Invoke (warmup_args p),
         ReadClock (to_double (clock w + snd (snd (pipeline (warmup_args p) (pstate w))))),
         ReadClock (to_double (clock w + snd (snd (pipeline (warmup_args p) (pstate w)))))]) \<and>
   (1 \<le> nb_pass \<longrightarrow> fst (elapsed_time pipeline p nb_pass steps w) \<noteq> Inl ZeroDivisionError)"
proof -
  have calls: "invocations (events_of pipeline p 0 steps w) = [warmup_args p]"
    using events_of_shape [of 0 pipeline p steps w] by auto
  have zero: "fst (elapsed_time pipeline p 0 steps w) = Inl ZeroDivisionError \<and>
      events_of pipeline p 0 steps w =
        [Invoke (warmup_args p),
         ReadClock (to_double (clock w + snd (snd (pipeline (warmup_args p) (pstate w))))),
         ReadClock (to_double (clock w + snd (snd (pipeline (warmup_args p) (pstate w)))))]"
    if ok: "fst (pipeline (warmup_args p) (pstate w)) = Inr out" and img: "out ''images'' = Some img"
  proof -
    obtain w1 where c: "call_pipeline pipeline (warmup_args p) w = (Inr out, w1)"
      using call_pipeline_result [of pipeline "warmup_args p" w] ok
      by (cases "call_pipeline pipeline (warmup_args p) w") simp
    have t1: "trace w1 = trace w @ [Invoke (warmup_args p)]"
      using call_pipeline_trace [of pipeline "warmup_args p" w] c by simp
    have k1: "clock w1 = clock w + snd (snd (pipeline (warmup_args p) (pstate w)))"
      using call_pipeline_clock [of pipeline "warmup_args p" w] c by simp
    have l: "timed_loop pipeline (timed_args p steps) (nat 0) (snd (time_time w1)) =
               (Inr (), snd (time_time w1))"
      by simp
    have run: "elapsed_time pipeline p 0 steps w =
                 (truediv (float_sub (to_double (clock (snd (time_time w1)))) (to_double (clock w1))) 0,
                  snd (time_time (snd (time_time w1))))"
      by (rule elapsed_time_reaches_end [OF c img l])
    show ?thesis
      by (simp add: run events_of_def truediv_def time_time_def t1 k1)
  qed
  have pos: "fst (elapsed_time pipeline p nb_pass steps w) \<noteq> Inl ZeroDivisionError" if "1 \<le> nb_pass"
    using that by (intro elapsed_time_no_division_error) simp
  show ?thesis
    using calls zero pos by blast
qed

theorem zero_passes_division_by_zero_witness:
  "invocations (events_of steady ''ship'' 0 20 world0) = [warmup_args ''ship''] \<and>
   fst (steady (warmup_args ''ship'') (pstate world0)) = Inr result_obj \<and>
   result_obj ''images'' = Some 1 \<and>
   fst (elapsed_time steady ''ship'' 0 20 world0) = Inl ZeroDivisionError \<and>
   events_of steady ''ship'' 0 20 world0 =
     [Invoke (warmup_args ''ship''), ReadClock 5002, ReadClock 5002] \<and>
   (1::int) \<le> 4 \<and>
   fst (elapsed_time steady ''ship'' 4 20 world0) \<noteq> Inl ZeroDivisionError"
proof -
  have a: "fst (steady (warmup_args ''ship'') (pstate world0)) = Inr result_obj"
    by (simp add: steady_def)
  have b: "result_obj ''images'' = Some 1"
    by (simp add: result_obj_def)
  have c: "to_double (clock world0 + snd (snd (steady (warmup_args ''ship'') (pstate world0)))) = 5002"
    by (simp add: steady_def world0_def float_defs)
  show ?thesis
    using zero_passes_division_by_zero [of steady "''ship''" 20 world0 result_obj 1 4] a b c
    by simp
qed

text \<open>
  The condition on the warm-up is needed. With \<open>nb_pass = 0\<close>, a pipeline that raises on
  the warm-up ends the run with its own exception, and one whose result has no \<open>images\<close>
  attribute ends it with an \<open>AttributeError\<close>: the division is not reached.
\<close>

theorem zero_passes_counterexample:
  "fst (elapsed_time broken ''ship'' 0 20 world0) = Inl (Raised ''out of memory'') \<and>
   fst (elapsed_time broken ''ship'' 0 20 world0) \<noteq> Inl ZeroDivisionError \<and>
   events_of broken ''ship'' 0 20 world0 = [Invoke (warmup_args ''ship'')] \<and>
   fst (elapsed_time bare ''ship'' 0 20 world0) = Inl (AttributeError ''images'') \<and>
   fst (elapsed_time bare ''ship'' 0 20 world0) \<noteq> Inl ZeroDivisionError \<and>
   events_of bare ''ship'' 0 20 world0 = [Invoke (warmup_args ''ship'')]"
  by (simp add: elapsed_time_def events_of_def call_pipeline_def getattr_def warmup_args_def
      world0_def broken_def bare_def bare_obj_def)

section \<open>The warm-up call is not a timed call with another step count\<close>

text \<open>
  Claim C10. In every run the warm-up invocation is made without the \<open>output_type\<close>
  argument while every timed invocation passes \<open>output_type = "np"\<close>, and a run that
  returns a value has made all its \<open>nb_pass\<close> timed invocations; and the warm-up result is
  looked at: when the pipeline returns an object without an \<open>images\<close> attribute, the run
  ends with an \<open>AttributeError\<close> right after the warm-up invocation, before any timestamp
  or timed invocation.
\<close>

theorem warmup_call_differs_and_is_examined:
  "(\<exists>m es. m \<le> nat nb_pass \<and>
      events_of pipeline p nb_pass steps w = Invoke (warmup_args p) # es \<and>
      output_type (warmup_args p) = None \<and>
      map output_type (invocations es) = replicate m (Some ''np'') \<and>
      (\<forall>r. fst (elapsed_time pipeline p nb_pass steps w) = Inr r \<longrightarrow> m = nat nb_pass)) \<and>
   (fst (pipeline (warmup_args p) (pstate w)) = Inr out \<and> out ''images'' = None \<longrightarrow>
      fst (elapsed_time pipeline p nb_pass steps w) = Inl (AttributeError ''images'') \<and>
      events_of pipeline p nb_pass steps w = [Invoke (warmup_args p)])"
proof -
  obtain m es where "m \<le> nat nb_pass"
    "events_of pipeline p nb_pass steps w = Invoke (warmup_args p) # es"
    "invocations es = replicate m (timed_args p steps)"
    "\<forall>r. fst (elapsed_time pipeline p nb_pass steps w) = Inr r \<longrightarrow> m = nat nb_pass"
    using events_of_shape [of nb_pass pipeline p steps w] by blast
  then have first: "\<exists>m es. m \<le> nat nb_pass \<and>
      events_of pipeline p nb_pass steps w = Invoke (warmup_args p) # es \<and>
      output_type (warmup_args p) = None \<and>
      map output_type (invocations es) = replicate m (Some ''np'') \<and>
      (\<forall>r. fst (elapsed_time pipeline p nb_pass steps w) = Inr r \<longrightarrow> m = nat nb_pass)"
    by (intro exI [of _ m] exI [of _ es]) (simp add: warmup_args_def timed_args_def)
  have second: "fst (elapsed_time pipeline p nb_pass steps w) = Inl (AttributeError ''images'') \<and>
      events_of pipeline p nb_pass steps w = [Invoke (warmup_args p)]"
    if ok: "fst (pipeline (warmup_args p) (pstate w)) = Inr out" and none: "out ''images'' = None"
  proof -
    obtain w1 where c: "call_pipeline pipeline (warmup_args p) w = (Inr out, w1)"
      using call_pipeline_result [of pipeline "warmup_args p" w] ok
      by (cases "call_pipeline pipeline (warmup_args p) w") simp
    have t1: "trace w1 = trace w @ [Invoke (warmup_args p)]"
      using call_pipeline_trace [of pipeline "warmup_args p" w] c by simp
    show ?thesis
      using none by (simp add: elapsed_time_def events_of_def c getattr_def t1)
  qed
  show ?thesis
    using first second by blast
qed

text \<open>Two runs: the two-second pipeline returns after a warm-up without \<open>output_type\<close> and
  four timed invocations with \<open>output_type = "np"\<close>; the pipeline whose result has no
  \<open>images\<close> attribute is stopped after the warm-up.\<close>

theorem warmup_call_differs_and_is_examined_witness:
  "fst (elapsed_time steady ''ship'' 4 20 world0) = Inr 2 \<and>
   (\<exists>m es. m \<le> nat 4 \<and>
      events_of steady ''ship'' 4 20 world0 = Invoke (warmup_args ''ship'') # es \<and>
      map output_type (invocations es) = replicate m (Some ''np'') \<and>
      m = nat 4) \<and>
   map output_type (invocations (events_of steady ''ship'' 4 20 world0)) =
     [None, Some ''np'', Some ''np'', Some ''np'', Some ''np''] \<and>
   fst (bare (warmup_args ''ship'') (pstate world0)) = Inr bare_obj \<and>
   bare_obj ''images'' = None \<and>
   fst (elapsed_time bare ''ship'' 4 20 world0) = Inl (AttributeError ''images'') \<and>
   events_of bare ''ship'' 4 20 world0 = [Invoke (warmup_args ''ship'')]"
proof -
  have r: "fst (elapsed_time steady ''ship'' 4 20 world0) = Inr 2"
    by (simp add: run_defs steady_def timed_loop_numeral)
  obtain m es where m: "m \<le> nat 4"
    "events_of steady ''ship'' 4 20 world0 = Invoke (warmup_args ''ship'') # es"
    "map output_type (invocations es) = replicate m (Some ''np'')"
    "\<forall>r. fst (elapsed_time steady ''ship'' 4 20 world0) = Inr r \<longrightarrow> m = nat 4"
    using warmup_call_differs_and_is_examined [of 4 steady "''ship''" 20 world0 result_obj]
    by blast
  have m4: "m = nat 4"
    using m(4) r by blast
  have four: "replicate (nat 4) (Some ''np'') = [Some ''np'', Some ''np'', Some ''np'', Some ''np'']"
    by (simp add: eval_nat_numeral)
  have calls: "map output_type (invocations (events_of steady ''ship'' 4 20 world0)) =
          [None, Some ''np'', Some ''np'', Some ''np'', Some ''np'']"
    using m(2,3) m4 four by (simp add: warmup_args_def)
  have a: "fst (bare (warmup_args ''ship'') (pstate world0)) = Inr bare_obj"
    by (simp add: bare_def)
  have b: "bare_obj ''images'' = None"
    by (simp add: bare_obj_def)
  have stopped: "fst (elapsed_time bare ''ship'' 4 20 world0) = Inl (AttributeError ''images'') \<and>
      events_of bare ''ship'' 4 20 world0 = [Invoke (warmup_args ''ship'')]"
    using warmup_call_differs_and_is_examined [of 4 bare "''ship''" 20 world0 bare_obj] a b
    by simp
  show ?thesis
    using r m m4 calls a b stopped by blast
qed

end
